theory Spec2Isabelle
  imports Complex_Main "HOL-Library.Sublist" "HOL-Library.Log_Nat"
begin

section \<open>Python values used by \<^verbatim>\<open>curvesim/network/web3.py\<close>\<close>

text \<open>
  The module \<^verbatim>\<open>curvesim.network.web3\<close> talks to two external services: the chain
  explorer (through \<^verbatim>\<open>HTTP.get\<close>) and the chain RPC client (through \<^verbatim>\<open>W3\<close>). Both are
  parameters of the model; the module's own five coroutines are translated one by one.
\<close>

subsection \<open>Floats: the wait of the retry loop\<close>

text \<open>
  \<^verbatim>\<open>t_wait\<close> is a Python float, that is an IEEE 754 binary64 number. Only positive values
  occur (\<^verbatim>\<open>0.2\<close>, then products by \<^verbatim>\<open>1.5\<close> rounded to two decimals), so a float is
  modelled by its exact rational value, or \<open>Inf\<close> once the exponent range is exceeded.
\<close>

datatype pyfloat = Fin rat | Inf

text \<open>Rounding a rational to the nearest integer, ties to the even one.\<close>

definition round_half_even :: "rat \<Rightarrow> int" where
  "round_half_even q =
     (let f = \<lfloor>q\<rfloor>; d = q - of_int f
      in if d < 1 / 2 then f else if 1 / 2 < d then f + 1 else if even f then f else f + 1)"

text \<open>\<open>floor_log2 q\<close> is the \<open>k\<close> with \<open>2 ^ k \<le> q < 2 ^ (k + 1)\<close>, for \<open>0 < q\<close>.\<close>

definition floor_log2 :: "rat \<Rightarrow> int" where
  "floor_log2 q = (if 1 \<le> q then bitlen \<lfloor>q\<rfloor> - 1 else - bitlen (\<lceil>1 / q\<rceil> - 1))"

definition pow2 :: "int \<Rightarrow> rat" where
  "pow2 e = (if 0 \<le> e then 2 ^ nat e else 1 / 2 ^ nat (- e))"

text \<open>
  \<open>to_double q\<close> is the binary64 number nearest to the positive rational \<open>q\<close> (ties to
  even): 53 significant bits \<open>m\<close>, the exponent \<open>e\<close> of the last bit no smaller than
  \<open>-1074\<close>, and overflow to infinity when \<open>m * 2 ^ e\<close> reaches \<open>2 ^ 1024\<close>, that is when
  \<open>971 < e\<close>, or \<open>e = 971\<close> and the significand was rounded up to \<open>2 ^ 53\<close>.
\<close>

definition to_double :: "rat \<Rightarrow> pyfloat" where
  "to_double q =
     (if q \<le> 0 then Fin 0
      else let e = max (floor_log2 q - 52) (- 1074);
               m = round_half_even (q / pow2 e)
           in if 971 < e \<or> (e = 971 \<and> 2 ^ 53 \<le> m) then Inf else Fin (of_int m * pow2 e))"

text \<open>The product of two positive floats: the exact product, rounded once.\<close>

fun py_mul :: "pyfloat \<Rightarrow> pyfloat \<Rightarrow> pyfloat" where
  "py_mul (Fin x) (Fin y) = to_double (x * y)"
| "py_mul _ _ = Inf"

text \<open>
  \<^verbatim>\<open>round(x, ndigits)\<close> for a float and \<open>0 \<le> ndigits\<close>: CPython prints the exact value of
  \<open>x\<close> with \<open>ndigits\<close> decimals, correctly rounded (ties to even), and reads the decimal
  string back as the nearest float. Infinities round to themselves.
\<close>

fun py_round :: "pyfloat \<Rightarrow> nat \<Rightarrow> pyfloat" where
  "py_round (Fin x) ndigits =
     to_double (of_int (round_half_even (x * 10 ^ ndigits)) / 10 ^ ndigits)"
| "py_round Inf ndigits = Inf"

text \<open>The exact sum of a list of durations (the time slept in total).\<close>

fun py_add_exact :: "pyfloat \<Rightarrow> pyfloat \<Rightarrow> pyfloat" where
  "py_add_exact (Fin x) (Fin y) = Fin (x + y)"
| "py_add_exact _ _ = Inf"

definition total_wait :: "pyfloat list \<Rightarrow> pyfloat" where
  "total_wait ds = foldr py_add_exact ds (Fin 0)"

subsection \<open>Strings, dictionaries, exceptions\<close>

text \<open>
  A query parameter is a string or \<^verbatim>\<open>None\<close> (\<^verbatim>\<open>os.environ.get\<close> returns \<^verbatim>\<open>None\<close> for a key
  that is not set). The \<^verbatim>\<open>params\<close> dictionary is a finite map from names to such values.
\<close>

datatype pyval = PyNone | PyStr string

type_synonym params = "string \<rightharpoonup> pyval"

text \<open>\<^verbatim>\<open>s.startswith(p)\<close>\<close>

definition startswith :: "string \<Rightarrow> string \<Rightarrow> bool" where
  "startswith s p = prefix p s"

text \<open>
  The exceptions a caller of this module can see, with their messages. \<open>ValueError\<close> is the
  builtin class: the module raises it itself, and so may the chain RPC client (a document
  that is no ABI, for one). \<open>OtherError\<close> is an exception of any other class.
  \<open>BatchError\<close> is the wrapper the specification names for a failed batch; no statement of
  the module constructs it.
\<close>

datatype exn = ValueError string | OtherError string | BatchError exn

section \<open>The external services\<close>

text \<open>
  A contract object as \<^verbatim>\<open>W3.eth.contract(address=address, abi=abi)\<close> builds it: the address
  and the ABI document it was bound with.
\<close>

record contract_obj =
  c_address :: string
  c_abi :: string

text \<open>
  The environment of a run:
  \<^item> \<open>ETHERSCAN_API_KEY\<close>, read from the process environment when the module is loaded;
  \<^item> \<open>http_result n url params\<close>, the \<^verbatim>\<open>"result"\<close> field of the document that
    \<^verbatim>\<open>HTTP.get(url, params=params)\<close> returns when it is request number \<open>n\<close> of the run
    (the explorer's answers always have this field, and it is a string);
  \<^item> \<open>contract_raises address abi\<close>, the exception \<^verbatim>\<open>W3.eth.contract(address=address, abi=abi)\<close>
    raises (an address or a document the client refuses), \<open>None\<close> when it builds the
    contract object;
  \<^item> \<open>dir_functions c\<close>, the names \<^verbatim>\<open>dir(c.functions)\<close> lists for a contract object;
  \<^item> \<open>call_function c fn\<close>, what \<^verbatim>\<open>c.functions[fn]().call()\<close> evaluates to: \<open>Inr\<close> the value
    returned by the chain, \<open>Inl\<close> the exception raised, of whatever class.
\<close>

record net =
  ETHERSCAN_API_KEY :: pyval
  http_result :: "nat \<Rightarrow> string \<Rightarrow> params \<Rightarrow> string"
  contract_raises :: "string \<Rightarrow> string \<Rightarrow> exn option"
  dir_functions :: "contract_obj \<Rightarrow> string list"
  call_function :: "contract_obj \<Rightarrow> string \<Rightarrow> exn + string"

text \<open>
  What a run has done so far: the HTTP requests issued (oldest first), the durations
  passed to \<^verbatim>\<open>asyncio.sleep\<close>, and the accessor calls made on contract objects.
\<close>

record world =
  requests :: "(string \<times> params) list"
  sleeps :: "pyfloat list"
  calls :: "(contract_obj \<times> string) list"

definition world0 :: world where
  "world0 = \<lparr>requests = [], sleeps = [], calls = []\<rparr>"

text \<open>\<^verbatim>\<open>await HTTP.get(url, params=params)\<close>, then \<^verbatim>\<open>r["result"]\<close>\<close>

definition HTTP_get :: "net \<Rightarrow> string \<Rightarrow> params \<Rightarrow> world \<Rightarrow> string \<times> world" where
  "HTTP_get nt url ps w =
     (http_result nt (length (requests w)) url ps, w\<lparr>requests := requests w @ [(url, ps)]\<rparr>)"

text \<open>
  \<^verbatim>\<open>await sleep(t)\<close>: the duration asked for is recorded. How long the event loop really
  waits is not part of the model.
\<close>

definition sleep :: "pyfloat \<Rightarrow> world \<Rightarrow> world" where
  "sleep t w = w\<lparr>sleeps := sleeps w @ [t]\<rparr>"

text \<open>\<^verbatim>\<open>await c.functions[fn]().call()\<close>: the call is recorded, its outcome is the chain's.\<close>

definition call :: "net \<Rightarrow> contract_obj \<Rightarrow> string \<Rightarrow> world \<Rightarrow> (exn + string) \<times> world" where
  "call nt c fn w = (call_function nt c fn, w\<lparr>calls := calls w @ [(c, fn)]\<rparr>)"

text \<open>\<^verbatim>\<open>W3.eth.contract(address=address, abi=abi)\<close>: the contract object, or the exception.\<close>

definition W3_eth_contract :: "net \<Rightarrow> string \<Rightarrow> string \<Rightarrow> exn + contract_obj" where
  "W3_eth_contract nt address abi =
     (case contract_raises nt address abi of
        Some e \<Rightarrow> Inl e
      | None \<Rightarrow> Inr \<lparr>c_address = address, c_abi = abi\<rparr>)"

section \<open>\<^verbatim>\<open>explorer\<close>\<close>

definition ETHERSCAN_URL :: string where
  "ETHERSCAN_URL = ''https://api.etherscan.io/api''"

definition rate_limit_marker :: string where
  "rate_limit_marker = ''Max rate limit reached''"

text \<open>
  The \<^verbatim>\<open>while True\<close> loop of \<^verbatim>\<open>explorer\<close>, with \<^verbatim>\<open>t_wait\<close> as an argument. The loop has no
  bound, so it is a partial function: \<open>None\<close> is the run that never leaves the loop.
\<close>

partial_function (option) explorer_loop ::
  "net \<Rightarrow> params \<Rightarrow> pyfloat \<Rightarrow> world \<Rightarrow> (string \<times> world) option" where
  "explorer_loop nt ps t_wait w =
     (case HTTP_get nt ETHERSCAN_URL ps w of
        (result, w1) \<Rightarrow>
          if startswith result rate_limit_marker
          then explorer_loop nt ps (py_round (py_mul t_wait (Fin (3 / 2))) 2) (sleep t_wait w1)
          else Some (result, w1))"

text \<open>
  \<^verbatim>\<open>explorer(params)\<close>. The dictionary is updated in place, so the caller's dictionary after
  the call is part of what the call returns.
\<close>

definition explorer :: "net \<Rightarrow> params \<Rightarrow> world \<Rightarrow> (string \<times> params \<times> world) option" where
  "explorer nt ps w =
     (let ps1 = ps(''apikey'' \<mapsto> ETHERSCAN_API_KEY nt)
      in case explorer_loop nt ps1 (to_double (2 / 10)) w of
           None \<Rightarrow> None
         | Some (result, w1) \<Rightarrow> Some (result, ps1, w1))"

section \<open>\<^verbatim>\<open>ABI\<close> and \<^verbatim>\<open>contract\<close>\<close>

definition ABI :: "net \<Rightarrow> string \<Rightarrow> world \<Rightarrow> (string \<times> world) option" where
  "ABI nt address w =
     (let p = [''module'' \<mapsto> PyStr ''contract'', ''action'' \<mapsto> PyStr ''getabi'',
               ''address'' \<mapsto> PyStr address]
      in case explorer nt p w of
           None \<Rightarrow> None
         | Some (abi, p1, w1) \<Rightarrow> Some (abi, w1))"

text \<open>
  Python truth of the \<^verbatim>\<open>abi\<close> argument: \<^verbatim>\<open>None\<close> and the empty document are false.
\<close>

fun truthy :: "string option \<Rightarrow> bool" where
  "truthy None = False"
| "truthy (Some d) = (d \<noteq> [])"

text \<open>\<^verbatim>\<open>contract(address, abi=None)\<close>: \<^verbatim>\<open>abi = abi or await ABI(address)\<close>, then the binding.\<close>

definition contract ::
  "net \<Rightarrow> string \<Rightarrow> string option \<Rightarrow> world \<Rightarrow> ((exn + contract_obj) \<times> world) option" where
  "contract nt address abi w =
     (case (case abi of
              Some d \<Rightarrow> if truthy abi then Some (d, w) else ABI nt address w
            | None \<Rightarrow> ABI nt address w) of
        None \<Rightarrow> None
      | Some (abi1, w1) \<Rightarrow> Some (W3_eth_contract nt address abi1, w1))"

section \<open>\<^verbatim>\<open>_underlying_coin_address\<close>\<close>

definition fns :: "string list" where
  "fns = [''upgradeToAndCall'', ''underlying'', ''token'']"

definition n_fns :: nat where
  "n_fns = length fns - 1"

text \<open>
  The \<^verbatim>\<open>for i, fn in enumerate(fns)\<close> loop over the pairs still to visit. The outcome is
  \<open>Inr (Some fn)\<close> after \<^verbatim>\<open>break\<close>, \<open>Inl\<close> the exception raised, and \<open>Inr None\<close> when the
  pairs are used up. The first component lists the names tested against
  \<^verbatim>\<open>dir(c.functions)\<close>, in the order of the tests; it is not a value of the program.
\<close>

fun probe_loop ::
  "string \<Rightarrow> string list \<Rightarrow> (nat \<times> string) list \<Rightarrow> string list \<times> (exn + string option)" where
  "probe_loop address dirc [] = ([], Inr None)"
| "probe_loop address dirc ((i, fn) # rest) =
     (if fn \<in> set dirc then ([fn], Inr (Some fn))
      else if i = n_fns
        then ([fn], Inl (ValueError (''Could not find underlying token for '' @ address)))
        else case probe_loop address dirc rest of (tested, r) \<Rightarrow> (fn # tested, r))"

definition AAVE_PROXY :: string where
  "AAVE_PROXY = ''0x1C050bCa8BAbe53Ef769d0d2e411f556e1a27E7B''"

text \<open>
  \<^verbatim>\<open>_underlying_coin_address(address)\<close>, here without the leading underscore. After a loop
  that ends without \<^verbatim>\<open>break\<close> the loop variable \<^verbatim>\<open>fn\<close> keeps the last name.
\<close>

definition underlying_coin_address ::
  "net \<Rightarrow> string \<Rightarrow> world \<Rightarrow> ((exn + string) \<times> world) option" where
  "underlying_coin_address nt address w =
     (case contract nt address None w of
        None \<Rightarrow> None
      | Some (Inl e, w1) \<Rightarrow> Some (Inl e, w1)
      | Some (Inr c, w1) \<Rightarrow>
          (case snd (probe_loop address (dir_functions nt c) (enumerate 0 fns)) of
             Inl e \<Rightarrow> Some (Inl e, w1)
           | Inr b \<Rightarrow>
               let fn = (case b of Some f \<Rightarrow> f | None \<Rightarrow> last fns)
               in if fn = ''upgradeToAndCall''
                  then (case ABI nt AAVE_PROXY w1 of
                          None \<Rightarrow> None
                        | Some (abi, w2) \<Rightarrow>
                            (case contract nt address (Some abi) w2 of
                               None \<Rightarrow> None
                             | Some (Inl e, w3) \<Rightarrow> Some (Inl e, w3)
                             | Some (Inr c2, w3) \<Rightarrow>
                                 Some (call nt c2 ''UNDERLYING_ASSET_ADDRESS'' w3)))
                  else Some (call nt c fn w1)))"

section \<open>\<^verbatim>\<open>underlying_coin_addresses\<close>\<close>

text \<open>
  A coroutine object that has not been started: run from a world, it ends with an
  exception or a value and leaves a world, or never ends.
\<close>

type_synonym 'a coro = "world \<Rightarrow> ((exn + 'a) \<times> world) option"

text \<open>
  \<^verbatim>\<open>asyncio.gather(*tasks)\<close>. The event loop decides in which order the tasks complete;
  \<open>order\<close> lists the positions of the tasks in that order. Each task is run from the world
  the tasks completed before it have left, and its value goes to the slot of its own
  position. The first exception raised is the outcome of \<^verbatim>\<open>gather\<close>. A position outside
  the list is no task, and a task that has completed is not run again. How the tasks
  interleave at their \<^verbatim>\<open>await\<close> points before they complete is not modelled.
\<close>

fun gather_loop ::
  "'a coro list \<Rightarrow> nat list \<Rightarrow> 'a option list \<Rightarrow> world \<Rightarrow> ((exn + 'a option list) \<times> world) option"
  where
  "gather_loop tasks [] slots w = Some (Inr slots, w)"
| "gather_loop tasks (i # order) slots w =
     (if i < length tasks \<and> slots ! i = None
      then (case (tasks ! i) w of
              None \<Rightarrow> None
            | Some (Inl e, w1) \<Rightarrow> Some (Inl e, w1)
            | Some (Inr v, w1) \<Rightarrow> gather_loop tasks order (slots[i := Some v]) w1)
      else gather_loop tasks order slots w)"

text \<open>
  \<^verbatim>\<open>gather\<close> returns the values in the order of its arguments once every task has
  completed; with a task that never completes it never returns.
\<close>

definition gather :: "nat list \<Rightarrow> 'a coro list \<Rightarrow> world \<Rightarrow> ((exn + 'a list) \<times> world) option" where
  "gather order tasks w =
     (case gather_loop tasks order (replicate (length tasks) None) w of
        None \<Rightarrow> None
      | Some (Inl e, w1) \<Rightarrow> Some (Inl e, w1)
      | Some (Inr slots, w1) \<Rightarrow>
          (case those slots of None \<Rightarrow> None | Some vs \<Rightarrow> Some (Inr vs, w1)))"

text \<open>The argument is a single string or an iterable of strings; so is the result.\<close>

datatype addresses_arg = Str string | Iterable "string list"

datatype addrs = Addr string | AddrList "string list"

definition underlying_coin_addresses ::
  "net \<Rightarrow> nat list \<Rightarrow> addresses_arg \<Rightarrow> world \<Rightarrow> ((exn + addrs) \<times> world) option" where
  "underlying_coin_addresses nt order addresses w =
     (case addresses of
        Str a \<Rightarrow>
          (case underlying_coin_address nt a w of
             None \<Rightarrow> None
           | Some (Inl e, w1) \<Rightarrow> Some (Inl e, w1)
           | Some (Inr v, w1) \<Rightarrow> Some (Inr (Addr v), w1))
      | Iterable as \<Rightarrow>
          (let tasks = map (underlying_coin_address nt) as
           in case gather order tasks w of
                None \<Rightarrow> None
              | Some (Inl e, w1) \<Rightarrow> Some (Inl e, w1)
              | Some (Inr vs, w1) \<Rightarrow> Some (Inr (AddrList vs), w1)))"

section \<open>Notions used to state the properties\<close>

text \<open>Request number \<open>n\<close> of the run, made with \<open>ps\<close>, is answered with the rate-limit marker.\<close>

definition limited :: "net \<Rightarrow> params \<Rightarrow> nat \<Rightarrow> bool" where
  "limited nt ps n = startswith (http_result nt n ETHERSCAN_URL ps) rate_limit_marker"

text \<open>
  The waits of one \<^verbatim>\<open>explorer\<close> call: \<open>wait_seq i\<close> is the value of \<^verbatim>\<open>t_wait\<close> after \<open>i\<close>
  rounds of the loop, and \<open>waits_from t k\<close> lists the \<open>k\<close> waits that start with \<open>t\<close>.
\<close>

fun wait_seq :: "nat \<Rightarrow> pyfloat" where
  "wait_seq 0 = to_double (2 / 10)"
| "wait_seq (Suc i) = py_round (py_mul (wait_seq i) (Fin (3 / 2))) 2"

fun waits_from :: "pyfloat \<Rightarrow> nat \<Rightarrow> pyfloat list" where
  "waits_from t 0 = []"
| "waits_from t (Suc k) = t # waits_from (py_round (py_mul t (Fin (3 / 2))) 2) k"

text \<open>
  The wait the specification gives for round \<open>i\<close>, \<^verbatim>\<open>round(0.2 * 1.5 ** i, 2)\<close>: the power
  and the product are floats, each term is rounded on its own.
\<close>

definition spec_term :: "nat \<Rightarrow> pyfloat" where
  "spec_term i = py_round (py_mul (to_double (2 / 10)) (to_double ((3 / 2) ^ i))) 2"

subsection \<open>Concrete services\<close>

text \<open>
  A chain with four tokens. \<open>0xAAA\<close> has \<^verbatim>\<open>underlying\<close> and \<^verbatim>\<open>token\<close>, \<open>0xFFF\<close> has only
  \<^verbatim>\<open>token\<close>, \<open>0xBBB\<close> is a proxy that shows \<^verbatim>\<open>upgradeToAndCall\<close>, and \<open>0xEEE\<close> (as any other
  address) has none of the three names. The explorer answers a query with a document that
  names the address asked for, and never limits the rate. The client builds a contract
  object from every address and document.
\<close>

definition demo_abi :: "params \<Rightarrow> string" where
  "demo_abi ps = (case ps ''address'' of Some (PyStr a) \<Rightarrow> ''abi of '' @ a | _ \<Rightarrow> [])"

definition demo_net :: net where
  "demo_net =
     \<lparr>ETHERSCAN_API_KEY = PyStr ''KEY'',
      http_result = (\<lambda>n url ps. demo_abi ps),
      contract_raises = (\<lambda>address abi. None),
      dir_functions = (\<lambda>c.
         if c_abi c = ''abi of 0xAAA'' then [''token'', ''underlying'']
         else if c_abi c = ''abi of 0xFFF'' then [''token'']
         else if c_abi c = ''abi of 0xBBB'' then [''upgradeToAndCall'']
         else if c_abi c = ''abi of '' @ AAVE_PROXY then [''UNDERLYING_ASSET_ADDRESS'']
         else [''balanceOf'']),
      call_function = (\<lambda>c fn.
         if c_address c = ''0xAAA'' \<and> fn = ''underlying'' then Inr ''0xCCC''
         else if c_address c = ''0xFFF'' \<and> fn = ''token'' then Inr ''0x999''
         else if c_address c = ''0xBBB'' \<and> c_abi c = ''abi of '' @ AAVE_PROXY
                 \<and> fn = ''UNDERLYING_ASSET_ADDRESS'' then Inr ''0xDDD''
         else Inl (OtherError ''no such function''))\<rparr>"

text \<open>The same chain behind an explorer that limits the first \<open>k\<close> requests of the run.\<close>

definition throttled_net :: "nat \<Rightarrow> net" where
  "throttled_net k =
     demo_net\<lparr>http_result := (\<lambda>n url ps.
        if n < k then rate_limit_marker @ '', please use API Key for higher rate limit''
        else demo_abi ps)\<rparr>"

text \<open>The same chain behind an explorer that limits every request.\<close>

definition outage_net :: net where
  "outage_net = demo_net\<lparr>http_result := (\<lambda>n url ps. rate_limit_marker)\<rparr>"

text \<open>The same chain, with an explorer that has an empty document for the proxy address.\<close>

definition blank_proxy_net :: net where
  "blank_proxy_net =
     demo_net\<lparr>http_result := (\<lambda>n url ps.
        if ps ''address'' = Some (PyStr AAVE_PROXY) then [] else demo_abi ps)\<rparr>"


text \<open>The query \<^verbatim>\<open>ABI(address)\<close> builds, and the same query once \<^verbatim>\<open>explorer\<close> has run.\<close>

definition getabi_params :: "string \<Rightarrow> params" where
  "getabi_params address =
     [''module'' \<mapsto> PyStr ''contract'', ''action'' \<mapsto> PyStr ''getabi'',
      ''address'' \<mapsto> PyStr address]"

definition with_key :: "net \<Rightarrow> params \<Rightarrow> params" where
  "with_key nt ps = ps(''apikey'' \<mapsto> ETHERSCAN_API_KEY nt)"

text \<open>The exception is the wrapper the specification names for a failed batch.\<close>

fun is_BatchError :: "exn \<Rightarrow> bool" where
  "is_BatchError (BatchError e) = True"
| "is_BatchError _ = False"

section \<open>Properties of the retry loop\<close>

text \<open>A call that returns has met a request that was not rate-limited, after a run of requests that were.\<close>

lemma explorer_loop_SomeD:
  assumes "explorer_loop nt ps t w = Some y"
  shows "\<exists>k. (\<forall>i<k. limited nt ps (length (requests w) + i))
           \<and> \<not> limited nt ps (length (requests w) + k)"
proof (rule explorer_loop.raw_induct
    [where P = "\<lambda>nt ps t w y. \<exists>k. (\<forall>i<k. limited nt ps (length (requests w) + i))
           \<and> \<not> limited nt ps (length (requests w) + k)", OF _ assms])
  fix loop :: "net \<Rightarrow> params \<Rightarrow> pyfloat \<Rightarrow> world \<Rightarrow> (string \<times> world) option"
    and nt ps t w y
  assume IH: "\<And>a b c d y. loop a b c d = Some y \<Longrightarrow>
      \<exists>k. (\<forall>i<k. limited a b (length (requests d) + i)) \<and> \<not> limited a b (length (requests d) + k)"
  assume eq: "(case HTTP_get nt ETHERSCAN_URL ps w of
        (result, w1) \<Rightarrow>
          if startswith result rate_limit_marker
          then loop nt ps (py_round (py_mul t (Fin (3 / 2))) 2) (sleep t w1)
          else Some (result, w1)) = Some y"
  let ?n = "length (requests w)"
  show "\<exists>k. (\<forall>i<k. limited nt ps (?n + i)) \<and> \<not> limited nt ps (?n + k)"
  proof (cases "limited nt ps ?n")
    case False
    then have "(\<forall>i<0. limited nt ps (?n + i)) \<and> \<not> limited nt ps (?n + 0)" by simp
    then show ?thesis by (rule exI)
  next
    case True
    let ?w1 = "sleep t (w\<lparr>requests := requests w @ [(ETHERSCAN_URL, ps)]\<rparr>)"
    from True eq have "loop nt ps (py_round (py_mul t (Fin (3 / 2))) 2) ?w1 = Some y"
      by (simp add: HTTP_get_def limited_def)
    from IH[OF this] obtain k
      where k: "\<forall>i<k. limited nt ps (length (requests ?w1) + i)"
        "\<not> limited nt ps (length (requests ?w1) + k)"
      by (elim exE conjE)
    have len: "length (requests ?w1) = Suc ?n" by (simp add: sleep_def)
    have "limited nt ps (?n + i)" if "i < Suc k" for i
    proof (cases i)
      case 0
      with True show ?thesis by simp
    next
      case (Suc j)
      with that have "j < k" by simp
      with k(1) have "limited nt ps (length (requests ?w1) + j)" by simp
      with len Suc show ?thesis by simp
    qed
    moreover from k(2) len have "\<not> limited nt ps (?n + Suc k)" by simp
    ultimately have "(\<forall>i<Suc k. limited nt ps (?n + i)) \<and> \<not> limited nt ps (?n + Suc k)" by simp
    then show ?thesis by (rule exI)
  qed
qed

text \<open>With \<open>k\<close> rate-limited answers and then another one, the loop returns that one.\<close>

lemma explorer_loop_run:
  assumes "\<forall>i<k. limited nt ps (length (requests w) + i)"
    and "\<not> limited nt ps (length (requests w) + k)"
  shows "explorer_loop nt ps t w =
     Some (http_result nt (length (requests w) + k) ETHERSCAN_URL ps,
           w\<lparr>requests := requests w @ replicate (Suc k) (ETHERSCAN_URL, ps),
             sleeps := sleeps w @ waits_from t k\<rparr>)"
  using assms
proof (induction k arbitrary: t w)
  case 0
  then show ?case
    by (subst explorer_loop.simps) (simp add: HTTP_get_def limited_def)
next
  case (Suc k)
  let ?w1 = "sleep t (w\<lparr>requests := requests w @ [(ETHERSCAN_URL, ps)]\<rparr>)"
  have len: "length (requests ?w1) = Suc (length (requests w))" by (simp add: sleep_def)
  have a: "\<forall>i<k. limited nt ps (length (requests ?w1) + i)"
    using Suc.prems(1) len by (metis Suc_less_eq add_Suc_shift)
  have b: "\<not> limited nt ps (length (requests ?w1) + k)"
    using Suc.prems(2) len by simp
  have lim0: "limited nt ps (length (requests w))"
    using Suc.prems(1) by (metis add.right_neutral zero_less_Suc)
  have "explorer_loop nt ps t w = explorer_loop nt ps (py_round (py_mul t (Fin (3 / 2))) 2) ?w1"
    using lim0 by (subst explorer_loop.simps) (simp add: HTTP_get_def limited_def)
  also note Suc.IH[OF a b]
  finally show ?case
    by (simp add: sleep_def replicate_app_Cons_same)
qed

lemma waits_from_wait_seq: "waits_from (wait_seq j) k = map wait_seq [j..<j + k]"
proof (induction k arbitrary: j)
  case 0
  show ?case by simp
next
  case (Suc k)
  have "[j..<j + Suc k] = j # [Suc j..<Suc j + k]" by (simp add: upt_conv_Cons)
  with Suc.IH[of "Suc j"] show ?case by simp
qed

lemma explorer_SomeD:
  assumes "explorer nt ps w = Some (r, ps1, w1)"
  shows "ps1 = with_key nt ps \<and>
    (\<exists>k. (\<forall>i<k. limited nt ps1 (length (requests w) + i))
        \<and> \<not> limited nt ps1 (length (requests w) + k)
        \<and> r = http_result nt (length (requests w) + k) ETHERSCAN_URL ps1
        \<and> w1 = w\<lparr>requests := requests w @ replicate (Suc k) (ETHERSCAN_URL, ps1),
                  sleeps := sleeps w @ map wait_seq [0..<k]\<rparr>)"
proof -
  let ?ps1 = "with_key nt ps"
  from assms obtain y where y: "explorer_loop nt ?ps1 (to_double (2 / 10)) w = Some y"
    and ps1: "ps1 = ?ps1" and res: "y = (r, w1)"
    by (auto simp: explorer_def with_key_def Let_def split: option.splits)
  from explorer_loop_SomeD[OF y] obtain k
    where k: "\<forall>i<k. limited nt ?ps1 (length (requests w) + i)"
      "\<not> limited nt ?ps1 (length (requests w) + k)"
    by (elim exE conjE)
  from explorer_loop_run[OF k, of "to_double (2 / 10)"] y res
  have "r = http_result nt (length (requests w) + k) ETHERSCAN_URL ?ps1"
    and "w1 = w\<lparr>requests := requests w @ replicate (Suc k) (ETHERSCAN_URL, ?ps1),
                  sleeps := sleeps w @ waits_from (wait_seq 0) k\<rparr>"
    by simp_all
  with k ps1 show ?thesis
    unfolding waits_from_wait_seq by (intro conjI exI[of _ k]) simp_all
qed

lemma explorer_run:
  assumes "\<forall>i<k. limited nt (with_key nt ps) (length (requests w) + i)"
    and "\<not> limited nt (with_key nt ps) (length (requests w) + k)"
  shows "explorer nt ps w =
     Some (http_result nt (length (requests w) + k) ETHERSCAN_URL (with_key nt ps),
           with_key nt ps,
           w\<lparr>requests := requests w @ replicate (Suc k) (ETHERSCAN_URL, with_key nt ps),
             sleeps := sleeps w @ map wait_seq [0..<k]\<rparr>)"
proof -
  have "waits_from (to_double (2 / 10)) k = map wait_seq [0..<k]"
    using waits_from_wait_seq[of 0 k] by simp
  with explorer_loop_run[OF assms, of "to_double (2 / 10)"] show ?thesis
    by (simp add: explorer_def with_key_def Let_def)
qed

lemma explorer_None:
  assumes "\<forall>n\<ge>length (requests w). limited nt (with_key nt ps) n"
  shows "explorer nt ps w = None"
proof (cases "explorer_loop nt (with_key nt ps) (to_double (2 / 10)) w")
  case None
  then show ?thesis by (simp add: explorer_def with_key_def Let_def)
next
  case (Some y)
  from explorer_loop_SomeD[OF Some] assms show ?thesis by (metis le_add1)
qed

lemma ABI_SomeD:
  assumes "ABI nt address w = Some (abi, w1)"
  shows "\<exists>k. abi = http_result nt (length (requests w) + k) ETHERSCAN_URL
                     (with_key nt (getabi_params address))
           \<and> w1 = w\<lparr>requests := requests w @
                        replicate (Suc k) (ETHERSCAN_URL, with_key nt (getabi_params address)),
                     sleeps := sleeps w @ map wait_seq [0..<k]\<rparr>"
proof -
  from assms obtain ps1 where "explorer nt (getabi_params address) w = Some (abi, ps1, w1)"
    by (auto simp: ABI_def getabi_params_def Let_def split: option.splits)
  from explorer_SomeD[OF this] show ?thesis by blast
qed

lemma ABI_requests:
  assumes "ABI nt address w = Some (abi, w1)"
  shows "length (requests w) < length (requests w1)" and "calls w1 = calls w"
  using ABI_SomeD[OF assms] by auto

section \<open>Binding a contract object\<close>

text \<open>
  C10. \<^verbatim>\<open>contract(address, abi)\<close> asks the explorer for the ABI exactly when the \<^verbatim>\<open>abi\<close>
  argument is false in Python's sense: left out or \<^verbatim>\<open>None\<close>, or an empty document. An
  empty document is fetched over, not bound. A non-empty document is handed to
  \<^verbatim>\<open>W3.eth.contract\<close> as it is and the world stays as it was: no request is issued. A fetch
  that returns has issued at least one request, and what it returns is what is handed to
  \<^verbatim>\<open>W3.eth.contract\<close>.
\<close>

theorem contract_fetches_iff_falsy:
  "(truthy abi \<longleftrightarrow> (\<exists>d. abi = Some d \<and> d \<noteq> []))
   \<and> (\<forall>d. abi = Some d \<and> d \<noteq> [] \<longrightarrow>
         contract nt address abi w = Some (W3_eth_contract nt address d, w))
   \<and> (\<not> truthy abi \<longrightarrow>
         contract nt address abi w =
           map_option (\<lambda>(d, w1). (W3_eth_contract nt address d, w1)) (ABI nt address w))
   \<and> (\<forall>d w1. ABI nt address w = Some (d, w1) \<longrightarrow> length (requests w) < length (requests w1))"
proof (intro conjI allI impI)
  show "truthy abi \<longleftrightarrow> (\<exists>d. abi = Some d \<and> d \<noteq> [])"
    by (cases abi) simp_all
next
  fix d assume "abi = Some d \<and> d \<noteq> []"
  then show "contract nt address abi w = Some (W3_eth_contract nt address d, w)"
    by (simp add: contract_def)
next
  assume "\<not> truthy abi"
  then show "contract nt address abi w =
      map_option (\<lambda>(d, w1). (W3_eth_contract nt address d, w1)) (ABI nt address w)"
    by (cases abi) (auto simp: contract_def split: option.splits)
next
  fix d w1 assume "ABI nt address w = Some (d, w1)"
  then show "length (requests w) < length (requests w1)" by (rule ABI_requests)
qed

lemma demo_not_limited: "\<not> limited demo_net ps n"
  by (simp add: limited_def demo_net_def demo_abi_def startswith_def rate_limit_marker_def
      split: option.split pyval.split)

lemma demo_ABI:
  "ABI demo_net address w =
     Some (''abi of '' @ address,
           w\<lparr>requests := requests w @ [(ETHERSCAN_URL, with_key demo_net (getabi_params address))]\<rparr>)"
proof -
  have "explorer demo_net (getabi_params address) w =
     Some (http_result demo_net (length (requests w) + 0) ETHERSCAN_URL
             (with_key demo_net (getabi_params address)),
           with_key demo_net (getabi_params address),
           w\<lparr>requests := requests w @
                replicate (Suc 0) (ETHERSCAN_URL, with_key demo_net (getabi_params address)),
             sleeps := sleeps w @ map wait_seq [0..<0]\<rparr>)"
    by (rule explorer_run) (simp_all add: demo_not_limited)
  then show ?thesis
    by (simp add: ABI_def getabi_params_def Let_def demo_net_def demo_abi_def with_key_def)
qed

lemma demo_bind:
  "W3_eth_contract demo_net address abi = Inr \<lparr>c_address = address, c_abi = abi\<rparr>"
  by (simp add: W3_eth_contract_def demo_net_def)

theorem contract_fetches_iff_falsy_witness:
  "truthy (Some ''abi of 0xAAA'') \<and> \<not> truthy (Some []) \<and> \<not> truthy None
   \<and> contract demo_net ''0xBBB'' (Some ''abi of 0xAAA'') world0 =
       Some (Inr \<lparr>c_address = ''0xBBB'', c_abi = ''abi of 0xAAA''\<rparr>, world0)
   \<and> contract demo_net ''0xBBB'' (Some []) world0 =
       Some (Inr \<lparr>c_address = ''0xBBB'', c_abi = ''abi of 0xBBB''\<rparr>,
             world0\<lparr>requests := [(ETHERSCAN_URL, with_key demo_net (getabi_params ''0xBBB''))]\<rparr>)
   \<and> contract demo_net ''0xBBB'' None world0 =
       Some (Inr \<lparr>c_address = ''0xBBB'', c_abi = ''abi of 0xBBB''\<rparr>,
             world0\<lparr>requests := [(ETHERSCAN_URL, with_key demo_net (getabi_params ''0xBBB''))]\<rparr>)"
  using contract_fetches_iff_falsy[of "Some ''abi of 0xAAA''" demo_net "''0xBBB''" world0]
    contract_fetches_iff_falsy[of "Some []" demo_net "''0xBBB''" world0]
    contract_fetches_iff_falsy[of None demo_net "''0xBBB''" world0]
  by (simp add: demo_ABI demo_bind world0_def)

section \<open>The explorer query\<close>

text \<open>
  C9. \<^verbatim>\<open>explorer(params)\<close> writes the key into the caller's own dictionary: after a call
  that returns, the dictionary holds \<^verbatim>\<open>ETHERSCAN_API_KEY\<close> under \<^verbatim>\<open>"apikey"\<close> and every other
  entry is as it was; and every request of the call, from the first on, was issued with
  the dictionary so updated.
\<close>

theorem explorer_updates_params:
  assumes "explorer nt ps w = Some (r, ps1, w1)"
  shows "ps1 ''apikey'' = Some (ETHERSCAN_API_KEY nt)
    \<and> (\<forall>key. key \<noteq> ''apikey'' \<longrightarrow> ps1 key = ps key)
    \<and> (\<exists>k. requests w1 = requests w @ replicate (Suc k) (ETHERSCAN_URL, ps1))"
proof -
  from explorer_SomeD[OF assms] have ps1: "ps1 = with_key nt ps"
    and ex: "\<exists>k. w1 = w\<lparr>requests := requests w @ replicate (Suc k) (ETHERSCAN_URL, ps1),
                  sleeps := sleeps w @ map wait_seq [0..<k]\<rparr>"
    by blast+
  from ex obtain k where "w1 = w\<lparr>requests := requests w @ replicate (Suc k) (ETHERSCAN_URL, ps1),
                  sleeps := sleeps w @ map wait_seq [0..<k]\<rparr>" ..
  then have "requests w1 = requests w @ replicate (Suc k) (ETHERSCAN_URL, ps1)" by simp
  then have "\<exists>k. requests w1 = requests w @ replicate (Suc k) (ETHERSCAN_URL, ps1)" ..
  with ps1 show ?thesis by (simp add: with_key_def)
qed

lemma demo_explorer:
  "explorer demo_net ps w =
     Some (demo_abi (with_key demo_net ps), with_key demo_net ps,
           w\<lparr>requests := requests w @ [(ETHERSCAN_URL, with_key demo_net ps)]\<rparr>)"
proof -
  have "explorer demo_net ps w =
     Some (http_result demo_net (length (requests w) + 0) ETHERSCAN_URL (with_key demo_net ps),
           with_key demo_net ps,
           w\<lparr>requests := requests w @ replicate (Suc 0) (ETHERSCAN_URL, with_key demo_net ps),
             sleeps := sleeps w @ map wait_seq [0..<0]\<rparr>)"
    by (rule explorer_run) (simp_all add: demo_not_limited)
  then show ?thesis by (simp add: demo_net_def)
qed

theorem explorer_updates_params_witness:
  "explorer demo_net (getabi_params ''0xAAA'') world0 =
     Some (''abi of 0xAAA'', (getabi_params ''0xAAA'')(''apikey'' \<mapsto> PyStr ''KEY''),
           world0\<lparr>requests :=
             [(ETHERSCAN_URL, (getabi_params ''0xAAA'')(''apikey'' \<mapsto> PyStr ''KEY''))]\<rparr>)
   \<and> ((getabi_params ''0xAAA'')(''apikey'' \<mapsto> PyStr ''KEY'')) ''apikey'' = Some (PyStr ''KEY'')
   \<and> ((getabi_params ''0xAAA'')(''apikey'' \<mapsto> PyStr ''KEY'')) ''module'' =
       getabi_params ''0xAAA'' ''module''"
proof -
  have run: "explorer demo_net (getabi_params ''0xAAA'') world0 =
     Some (''abi of 0xAAA'', (getabi_params ''0xAAA'')(''apikey'' \<mapsto> PyStr ''KEY''),
           world0\<lparr>requests :=
             [(ETHERSCAN_URL, (getabi_params ''0xAAA'')(''apikey'' \<mapsto> PyStr ''KEY''))]\<rparr>)"
    by (simp add: demo_explorer with_key_def demo_abi_def getabi_params_def world0_def)
      (simp add: demo_net_def)
  from explorer_updates_params[OF run] run show ?thesis
    by (simp add: demo_net_def)
qed

text \<open>
  C8. The retry loop has no bound. When every request from now on is answered with the
  rate-limit marker, \<^verbatim>\<open>explorer\<close> never returns: its run is the one that never leaves the
  loop. (It cannot end with an exception either: the outcome of \<^verbatim>\<open>explorer\<close> has no
  exception in it.)
\<close>

theorem explorer_retries_forever:
  assumes "\<forall>n\<ge>length (requests w). startswith (http_result nt n ETHERSCAN_URL
              (ps(''apikey'' \<mapsto> ETHERSCAN_API_KEY nt))) rate_limit_marker"
  shows "explorer nt ps w = None"
  using assms by (intro explorer_None) (simp add: limited_def with_key_def)

theorem explorer_retries_forever_witness:
  "startswith (http_result outage_net 0 ETHERSCAN_URL
       ((getabi_params ''0xAAA'')(''apikey'' \<mapsto> ETHERSCAN_API_KEY outage_net))) rate_limit_marker
   \<and> explorer outage_net (getabi_params ''0xAAA'') world0 = None"
proof -
  have lim: "\<forall>n\<ge>length (requests world0). startswith (http_result outage_net n ETHERSCAN_URL
       ((getabi_params ''0xAAA'')(''apikey'' \<mapsto> ETHERSCAN_API_KEY outage_net))) rate_limit_marker"
    by (simp add: outage_net_def startswith_def)
  from explorer_retries_forever[OF lim] lim show ?thesis
    by (simp add: world0_def)
qed

section \<open>The waits of the retry loop\<close>

lemma wait_seq_5:
  "map wait_seq [0..<5] = map to_double [20 / 100, 30 / 100, 45 / 100, 68 / 100, 102 / 100]"
  by code_simp

lemma spec_term_5:
  "map spec_term [0..<5] = map to_double [20 / 100, 30 / 100, 45 / 100, 68 / 100, 101 / 100]"
  by code_simp

lemma totals_5:
  "total_wait (map to_double [20 / 100, 30 / 100, 45 / 100, 68 / 100, 102 / 100]) \<noteq>
   total_wait (map to_double [20 / 100, 30 / 100, 45 / 100, 68 / 100, 101 / 100])"
  by code_simp

lemma throttled_limited:
  "limited (throttled_net k) (with_key (throttled_net k) (getabi_params a)) n \<longleftrightarrow> n < k"
  by (simp add: limited_def throttled_net_def startswith_def demo_abi_def with_key_def
      getabi_params_def rate_limit_marker_def)

text \<open>
  C4, as the code has it. After \<open>k\<close> rate-limited answers and one that is not,
  \<^verbatim>\<open>explorer\<close> returns the \<^verbatim>\<open>result\<close> of that last answer, and it has slept \<open>k\<close> times: first
  \<open>0.2\<close>, and each time after that the wait before, multiplied by \<open>1.5\<close> and rounded to two
  decimals (\<open>wait_seq\<close>). The rounded wait is what the next round multiplies, so the waits
  are not the terms \<^verbatim>\<open>round(0.2 * 1.5 ** i, 2)\<close> of the geometric series. The time slept in
  total is the sum of these waits.
\<close>

theorem explorer_backoff:
  assumes "\<forall>i<k. limited nt (ps(''apikey'' \<mapsto> ETHERSCAN_API_KEY nt)) (length (requests w) + i)"
    and "\<not> limited nt (ps(''apikey'' \<mapsto> ETHERSCAN_API_KEY nt)) (length (requests w) + k)"
  shows "\<exists>ps1 w1. explorer nt ps w =
             Some (http_result nt (length (requests w) + k) ETHERSCAN_URL ps1, ps1, w1)
           \<and> ps1 = ps(''apikey'' \<mapsto> ETHERSCAN_API_KEY nt)
           \<and> sleeps w1 = sleeps w @ map wait_seq [0..<k]
           \<and> total_wait (drop (length (sleeps w)) (sleeps w1)) = total_wait (map wait_seq [0..<k])
           \<and> wait_seq 0 = to_double (2 / 10)
           \<and> (\<forall>i. wait_seq (Suc i) = py_round (py_mul (wait_seq i) (Fin (3 / 2))) 2)"
proof -
  from assms have a: "\<forall>i<k. limited nt (with_key nt ps) (length (requests w) + i)"
    and b: "\<not> limited nt (with_key nt ps) (length (requests w) + k)"
    by (simp_all add: with_key_def)
  show ?thesis
    unfolding explorer_run[OF a b] by (simp add: with_key_def)
qed

theorem explorer_backoff_witness:
  "(\<exists>w1. explorer (throttled_net 5) (getabi_params ''0xAAA'') world0 =
       Some (''abi of 0xAAA'',
             (getabi_params ''0xAAA'')(''apikey'' \<mapsto> ETHERSCAN_API_KEY (throttled_net 5)), w1)
     \<and> sleeps w1 = map to_double [20 / 100, 30 / 100, 45 / 100, 68 / 100, 102 / 100])"
proof -
  let ?nt = "throttled_net 5" and ?ps = "getabi_params ''0xAAA''"
  have a: "\<forall>i<5. limited ?nt (?ps(''apikey'' \<mapsto> ETHERSCAN_API_KEY ?nt)) (length (requests world0) + i)"
    using throttled_limited[of 5 "''0xAAA''"] by (simp add: with_key_def world0_def)
  have b: "\<not> limited ?nt (?ps(''apikey'' \<mapsto> ETHERSCAN_API_KEY ?nt)) (length (requests world0) + 5)"
    using throttled_limited[of 5 "''0xAAA''" 5] by (simp add: with_key_def world0_def)
  have r: "http_result ?nt 5 ETHERSCAN_URL (?ps(''apikey'' \<mapsto> ETHERSCAN_API_KEY ?nt)) = ''abi of 0xAAA''"
    by (simp add: throttled_net_def demo_abi_def getabi_params_def)
  from explorer_backoff[OF a b] obtain ps1 w1
    where "explorer ?nt ?ps world0 =
             Some (http_result ?nt (length (requests world0) + 5) ETHERSCAN_URL ps1, ps1, w1)"
      and "ps1 = ?ps(''apikey'' \<mapsto> ETHERSCAN_API_KEY ?nt)"
      and "sleeps w1 = sleeps world0 @ map wait_seq [0..<5]"
    by blast
  with r wait_seq_5 have "explorer ?nt ?ps world0 =
       Some (''abi of 0xAAA'', ?ps(''apikey'' \<mapsto> ETHERSCAN_API_KEY ?nt), w1)
     \<and> sleeps w1 = map to_double [20 / 100, 30 / 100, 45 / 100, 68 / 100, 102 / 100]"
    by (simp add: world0_def)
  then show ?thesis ..
qed

text \<open>
  C4, as the specification has it, fails at five rate-limited answers: the fifth wait is
  \<open>1.02\<close>, the fifth term of the series is \<open>1.01\<close>, and the totals differ.
\<close>

theorem explorer_backoff_counterexample:
  "map_option (\<lambda>(r, ps1, w1). (r, sleeps w1))
     (explorer (throttled_net 5) (getabi_params ''0xAAA'') world0) =
     Some (''abi of 0xAAA'', map to_double [20 / 100, 30 / 100, 45 / 100, 68 / 100, 102 / 100])
   \<and> map spec_term [0..<5] = map to_double [20 / 100, 30 / 100, 45 / 100, 68 / 100, 101 / 100]
   \<and> total_wait (map to_double [20 / 100, 30 / 100, 45 / 100, 68 / 100, 102 / 100]) \<noteq>
       total_wait (map spec_term [0..<5])"
proof -
  let ?nt = "throttled_net 5" and ?ps = "getabi_params ''0xAAA''"
  have a: "\<forall>i<5. limited ?nt (with_key ?nt ?ps) (length (requests world0) + i)"
    using throttled_limited[of 5 "''0xAAA''"] by (simp add: world0_def)
  have b: "\<not> limited ?nt (with_key ?nt ?ps) (length (requests world0) + 5)"
    using throttled_limited[of 5 "''0xAAA''" 5] by (simp add: world0_def)
  have r: "http_result ?nt 5 ETHERSCAN_URL (with_key ?nt ?ps) = ''abi of 0xAAA''"
    by (simp add: throttled_net_def demo_abi_def getabi_params_def with_key_def)
  have "map_option (\<lambda>(r, ps1, w1). (r, sleeps w1)) (explorer ?nt ?ps world0) =
     Some (''abi of 0xAAA'', map wait_seq [0..<5])"
    unfolding explorer_run[OF a b] using r by (simp add: world0_def)
  with wait_seq_5 spec_term_5 totals_5 show ?thesis by simp
qed

section \<open>Resolving one address\<close>

lemma ABI_unlimited:
  assumes "\<not> limited nt (with_key nt (getabi_params address)) (length (requests w))"
  shows "ABI nt address w =
     Some (http_result nt (length (requests w)) ETHERSCAN_URL (with_key nt (getabi_params address)),
           w\<lparr>requests := requests w @ [(ETHERSCAN_URL, with_key nt (getabi_params address))]\<rparr>)"
proof -
  have "explorer nt (getabi_params address) w =
     Some (http_result nt (length (requests w) + 0) ETHERSCAN_URL
             (with_key nt (getabi_params address)),
           with_key nt (getabi_params address),
           w\<lparr>requests := requests w @
                replicate (Suc 0) (ETHERSCAN_URL, with_key nt (getabi_params address)),
             sleeps := sleeps w @ map wait_seq [0..<0]\<rparr>)"
    by (rule explorer_run) (simp_all add: assms)
  then show ?thesis
    by (simp add: ABI_def getabi_params_def Let_def)
qed

lemma probe_loop_fns:
  "probe_loop address dirc (enumerate 0 fns) =
     (if ''upgradeToAndCall'' \<in> set dirc
        then ([''upgradeToAndCall''], Inr (Some ''upgradeToAndCall''))
      else if ''underlying'' \<in> set dirc
        then ([''upgradeToAndCall'', ''underlying''], Inr (Some ''underlying''))
      else if ''token'' \<in> set dirc
        then ([''upgradeToAndCall'', ''underlying'', ''token''], Inr (Some ''token''))
      else ([''upgradeToAndCall'', ''underlying'', ''token''],
            Inl (ValueError (''Could not find underlying token for '' @ address))))"
  by (simp add: fns_def n_fns_def)

lemma calls_call: "calls (snd (call nt c fn w)) = calls w @ [(c, fn)]"
  by (simp add: call_def)

text \<open>
  C1. The names are tested against \<^verbatim>\<open>dir(c.functions)\<close> in the order
  \<^verbatim>\<open>upgradeToAndCall\<close>, \<^verbatim>\<open>underlying\<close>, \<^verbatim>\<open>token\<close>; the loop stops at the first name that is
  there, having tested the names before it and none after it. With \<^verbatim>\<open>underlying\<close> and
  \<^verbatim>\<open>token\<close> (and no \<^verbatim>\<open>upgradeToAndCall\<close>) it stops at \<^verbatim>\<open>underlying\<close> and \<^verbatim>\<open>token\<close> is not tested;
  with \<^verbatim>\<open>token\<close> alone it stops at \<^verbatim>\<open>token\<close>. When the name found is not
  \<^verbatim>\<open>upgradeToAndCall\<close>, it is the accessor \<^verbatim>\<open>_underlying_coin_address\<close> calls.
\<close>

theorem candidate_priority:
  "fns = [''upgradeToAndCall'', ''underlying'', ''token'']
   \<and> probe_loop address dirc (enumerate 0 fns) =
       (case find (\<lambda>fn. fn \<in> set dirc) fns of
          Some fn \<Rightarrow> (takeWhile (\<lambda>fn. fn \<notin> set dirc) fns @ [fn], Inr (Some fn))
        | None \<Rightarrow> (fns, Inl (ValueError (''Could not find underlying token for '' @ address))))
   \<and> (''upgradeToAndCall'' \<notin> set dirc \<and> ''underlying'' \<in> set dirc \<and> ''token'' \<in> set dirc \<longrightarrow>
        probe_loop address dirc (enumerate 0 fns) =
          ([''upgradeToAndCall'', ''underlying''], Inr (Some ''underlying'')))
   \<and> (''upgradeToAndCall'' \<notin> set dirc \<and> ''underlying'' \<notin> set dirc \<and> ''token'' \<in> set dirc \<longrightarrow>
        probe_loop address dirc (enumerate 0 fns) =
          ([''upgradeToAndCall'', ''underlying'', ''token''], Inr (Some ''token'')))
   \<and> (\<forall>c w1 fn. contract nt address None w = Some (Inr c, w1) \<and> dirc = dir_functions nt c
          \<and> find (\<lambda>fn. fn \<in> set dirc) fns = Some fn \<and> fn \<noteq> ''upgradeToAndCall'' \<longrightarrow>
        underlying_coin_address nt address w = Some (call nt c fn w1))"
proof (intro conjI allI impI)
  show "fns = [''upgradeToAndCall'', ''underlying'', ''token'']" by (simp add: fns_def)
  show "probe_loop address dirc (enumerate 0 fns) =
       (case find (\<lambda>fn. fn \<in> set dirc) fns of
          Some fn \<Rightarrow> (takeWhile (\<lambda>fn. fn \<notin> set dirc) fns @ [fn], Inr (Some fn))
        | None \<Rightarrow> (fns, Inl (ValueError (''Could not find underlying token for '' @ address))))"
    unfolding probe_loop_fns by (simp add: fns_def)
  show "probe_loop address dirc (enumerate 0 fns) =
          ([''upgradeToAndCall'', ''underlying''], Inr (Some ''underlying''))"
    if "''upgradeToAndCall'' \<notin> set dirc \<and> ''underlying'' \<in> set dirc \<and> ''token'' \<in> set dirc"
    using that unfolding probe_loop_fns by simp
  show "probe_loop address dirc (enumerate 0 fns) =
          ([''upgradeToAndCall'', ''underlying'', ''token''], Inr (Some ''token''))"
    if "''upgradeToAndCall'' \<notin> set dirc \<and> ''underlying'' \<notin> set dirc \<and> ''token'' \<in> set dirc"
    using that unfolding probe_loop_fns by simp
next
  fix c w1 fn
  assume h: "contract nt address None w = Some (Inr c, w1) \<and> dirc = dir_functions nt c
          \<and> find (\<lambda>fn. fn \<in> set dirc) fns = Some fn \<and> fn \<noteq> ''upgradeToAndCall''"
  then have "snd (probe_loop address (dir_functions nt c) (enumerate 0 fns)) = Inr (Some fn)"
    unfolding probe_loop_fns by (auto simp: fns_def split: if_splits)
  with h show "underlying_coin_address nt address w = Some (call nt c fn w1)"
    by (simp add: underlying_coin_address_def)
qed

lemma demo_contract:
  "contract demo_net address None w =
     Some (Inr \<lparr>c_address = address, c_abi = ''abi of '' @ address\<rparr>,
           w\<lparr>requests := requests w @ [(ETHERSCAN_URL, with_key demo_net (getabi_params address))]\<rparr>)"
  by (simp add: contract_def demo_ABI demo_bind)

theorem candidate_priority_witness:
  "probe_loop ''0xAAA'' [''token'', ''underlying''] (enumerate 0 fns) =
     ([''upgradeToAndCall'', ''underlying''], Inr (Some ''underlying''))
   \<and> probe_loop ''0xFFF'' [''token''] (enumerate 0 fns) =
     ([''upgradeToAndCall'', ''underlying'', ''token''], Inr (Some ''token''))
   \<and> underlying_coin_address demo_net ''0xAAA'' world0 =
     Some (Inr ''0xCCC'',
       \<lparr>requests = [(ETHERSCAN_URL, with_key demo_net (getabi_params ''0xAAA''))], sleeps = [],
        calls = [(\<lparr>c_address = ''0xAAA'', c_abi = ''abi of 0xAAA''\<rparr>, ''underlying'')]\<rparr>)"
proof -
  let ?c = "\<lparr>c_address = ''0xAAA'', c_abi = ''abi of 0xAAA''\<rparr>"
  let ?w1 = "world0\<lparr>requests := [(ETHERSCAN_URL, with_key demo_net (getabi_params ''0xAAA''))]\<rparr>"
  note A = candidate_priority[of "''0xAAA''" "[''token'', ''underlying'']" demo_net world0]
  note F = candidate_priority[of "''0xFFF''" "[''token'']" demo_net world0]
  have c: "contract demo_net ''0xAAA'' None world0 = Some (Inr ?c, ?w1)"
    by (simp add: demo_contract world0_def)
  have d: "[''token'', ''underlying''] = dir_functions demo_net ?c"
    by (simp add: demo_net_def)
  have f: "find (\<lambda>fn. fn \<in> set [''token'', ''underlying'']) fns = Some ''underlying''"
    by (simp add: fns_def)
  from A have "''upgradeToAndCall'' \<notin> set [''token'', ''underlying'']
      \<and> ''underlying'' \<in> set [''token'', ''underlying'']
      \<and> ''token'' \<in> set [''token'', ''underlying''] \<longrightarrow>
    probe_loop ''0xAAA'' [''token'', ''underlying''] (enumerate 0 fns) =
     ([''upgradeToAndCall'', ''underlying''], Inr (Some ''underlying''))"
    by (elim conjE)
  then have p1: "probe_loop ''0xAAA'' [''token'', ''underlying''] (enumerate 0 fns) =
     ([''upgradeToAndCall'', ''underlying''], Inr (Some ''underlying''))"
    by simp
  from F have "''upgradeToAndCall'' \<notin> set [''token''] \<and> ''underlying'' \<notin> set [''token'']
      \<and> ''token'' \<in> set [''token''] \<longrightarrow>
    probe_loop ''0xFFF'' [''token''] (enumerate 0 fns) =
     ([''upgradeToAndCall'', ''underlying'', ''token''], Inr (Some ''token''))"
    by (elim conjE)
  then have p2: "probe_loop ''0xFFF'' [''token''] (enumerate 0 fns) =
     ([''upgradeToAndCall'', ''underlying'', ''token''], Inr (Some ''token''))"
    by simp
  from A have "\<forall>c w1 fn. contract demo_net ''0xAAA'' None world0 = Some (Inr c, w1)
          \<and> [''token'', ''underlying''] = dir_functions demo_net c
          \<and> find (\<lambda>fn. fn \<in> set [''token'', ''underlying'']) fns = Some fn
          \<and> fn \<noteq> ''upgradeToAndCall'' \<longrightarrow>
        underlying_coin_address demo_net ''0xAAA'' world0 = Some (call demo_net c fn w1)"
    by (elim conjE)
  with c d f have "underlying_coin_address demo_net ''0xAAA'' world0 =
      Some (call demo_net ?c ''underlying'' ?w1)"
    by simp
  also have "call demo_net ?c ''underlying'' ?w1 = (Inr ''0xCCC'',
       \<lparr>requests = [(ETHERSCAN_URL, with_key demo_net (getabi_params ''0xAAA''))], sleeps = [],
        calls = [(?c, ''underlying'')]\<rparr>)"
    by (simp add: call_def demo_net_def world0_def)
  finally show ?thesis using p1 p2 by simp
qed

lemma resolver_cases:
  assumes "contract nt address None w = Some (Inr c, w1)"
  shows "underlying_coin_address nt address w =
     (if set fns \<inter> set (dir_functions nt c) = {}
      then Some (Inl (ValueError (''Could not find underlying token for '' @ address)), w1)
      else if ''upgradeToAndCall'' \<in> set (dir_functions nt c)
      then (case ABI nt AAVE_PROXY w1 of
              None \<Rightarrow> None
            | Some (abi, w2) \<Rightarrow>
                (case contract nt address (Some abi) w2 of
                   None \<Rightarrow> None
                 | Some (Inl e, w3) \<Rightarrow> Some (Inl e, w3)
                 | Some (Inr c2, w3) \<Rightarrow> Some (call nt c2 ''UNDERLYING_ASSET_ADDRESS'' w3)))
      else if ''underlying'' \<in> set (dir_functions nt c)
      then Some (call nt c ''underlying'' w1)
      else Some (call nt c ''token'' w1))"
  using assms unfolding underlying_coin_address_def probe_loop_fns
  by (auto simp: fns_def)


lemma contract_calls:
  assumes "contract nt address abi w = Some (r, w1)"
  shows "calls w1 = calls w"
proof (cases "truthy abi")
  case True
  then obtain d where "abi = Some d" "d \<noteq> []" by (cases abi) auto
  with assms show ?thesis by (auto simp: contract_def)
next
  case False
  with assms obtain d where "ABI nt address w = Some (d, w1)"
    by (cases abi) (auto simp: contract_def split: option.splits if_splits)
  then show ?thesis by (rule ABI_requests)
qed



lemma demo_dir_EEE:
  "dir_functions demo_net \<lparr>c_address = ''0xEEE'', c_abi = ''abi of 0xEEE''\<rparr> = [''balanceOf'']"
  by (simp add: demo_net_def AAVE_PROXY_def)




text \<open>
  The proxy branch. When \<^verbatim>\<open>upgradeToAndCall\<close> is among \<^verbatim>\<open>dir(c.functions)\<close>, the document
  fetched for the proxy address is not empty and the client builds a contract object from
  it, the accessor called is \<^verbatim>\<open>UNDERLYING_ASSET_ADDRESS\<close>, on the object bound to the same
  address with that document, whatever else the contract's own ABI holds.
\<close>

lemma proxy_branch:
  assumes "contract nt address None w = Some (Inr c, w1)"
    and "''upgradeToAndCall'' \<in> set (dir_functions nt c)"
    and "ABI nt AAVE_PROXY w1 = Some (abi, w2)" and "abi \<noteq> []"
    and "contract_raises nt address abi = None"
  shows "underlying_coin_address nt address w =
      Some (call nt \<lparr>c_address = address, c_abi = abi\<rparr> ''UNDERLYING_ASSET_ADDRESS'' w2)"
    and "calls (snd (call nt \<lparr>c_address = address, c_abi = abi\<rparr> ''UNDERLYING_ASSET_ADDRESS'' w2)) =
        calls w @ [(\<lparr>c_address = address, c_abi = abi\<rparr>, ''UNDERLYING_ASSET_ADDRESS'')]"
proof -
  from assms(4,5)
  have b: "contract nt address (Some abi) w2 = Some (Inr \<lparr>c_address = address, c_abi = abi\<rparr>, w2)"
    by (simp add: contract_def W3_eth_contract_def)
  from assms(2) have "set fns \<inter> set (dir_functions nt c) \<noteq> {}" by (auto simp: fns_def)
  with resolver_cases[OF assms(1)] assms(2,3) b
  show "underlying_coin_address nt address w =
      Some (call nt \<lparr>c_address = address, c_abi = abi\<rparr> ''UNDERLYING_ASSET_ADDRESS'' w2)"
    by simp
  from contract_calls[OF assms(1)] ABI_requests(2)[OF assms(3)]
  show "calls (snd (call nt \<lparr>c_address = address, c_abi = abi\<rparr> ''UNDERLYING_ASSET_ADDRESS'' w2)) =
        calls w @ [(\<lparr>c_address = address, c_abi = abi\<rparr>, ''UNDERLYING_ASSET_ADDRESS'')]"
    by (simp add: calls_call)
qed

text \<open>A resolution that returns a value has made exactly one accessor call.\<close>

lemma one_call_per_value:
  assumes "underlying_coin_address nt address w = Some (Inr v, w3)"
  shows "\<exists>c3 fn. calls w3 = calls w @ [(c3, fn)]"
proof -
  from assms obtain c w1 where c: "contract nt address None w = Some (Inr c, w1)"
    by (auto simp: underlying_coin_address_def split: option.splits sum.splits)
  note cw = contract_calls[OF c]
  from assms resolver_cases[OF c] consider
      (direct) fn where "call nt c fn w1 = (Inr v, w3)"
    | (proxy) abi w2 c2 w4 where "ABI nt AAVE_PROXY w1 = Some (abi, w2)"
        "contract nt address (Some abi) w2 = Some (Inr c2, w4)"
        "call nt c2 ''UNDERLYING_ASSET_ADDRESS'' w4 = (Inr v, w3)"
    by (auto split: if_splits option.splits sum.splits) blast+
  then show ?thesis
  proof cases
    case direct
    from calls_call[of nt c fn w1] direct cw have "calls w3 = calls w @ [(c, fn)]" by simp
    then show ?thesis by blast
  next
    case proxy
    from calls_call[of nt c2 "''UNDERLYING_ASSET_ADDRESS''" w4] proxy(3)
      contract_calls[OF proxy(2)] ABI_requests(2)[OF proxy(1)] cw
    have "calls w3 = calls w @ [(c2, ''UNDERLYING_ASSET_ADDRESS'')]" by simp
    then show ?thesis by blast
  qed
qed

text \<open>The proxy \<open>0xBBB\<close> of the demonstration chain resolves through the proxy ABI.\<close>

lemma demo_proxy_resolution:
  "underlying_coin_address demo_net ''0xBBB'' world0 =
     Some (Inr ''0xDDD'',
       \<lparr>requests = [(ETHERSCAN_URL, with_key demo_net (getabi_params ''0xBBB'')),
                    (ETHERSCAN_URL, with_key demo_net (getabi_params AAVE_PROXY))],
        sleeps = [],
        calls = [(\<lparr>c_address = ''0xBBB'', c_abi = ''abi of '' @ AAVE_PROXY\<rparr>,
                  ''UNDERLYING_ASSET_ADDRESS'')]\<rparr>)"
proof -
  let ?c = "\<lparr>c_address = ''0xBBB'', c_abi = ''abi of 0xBBB''\<rparr>"
  let ?w1 = "world0\<lparr>requests := [(ETHERSCAN_URL, with_key demo_net (getabi_params ''0xBBB''))]\<rparr>"
  let ?w2 = "world0\<lparr>requests := [(ETHERSCAN_URL, with_key demo_net (getabi_params ''0xBBB'')),
                    (ETHERSCAN_URL, with_key demo_net (getabi_params AAVE_PROXY))]\<rparr>"
  let ?c2 = "\<lparr>c_address = ''0xBBB'', c_abi = ''abi of '' @ AAVE_PROXY\<rparr>"
  have c: "contract demo_net ''0xBBB'' None world0 = Some (Inr ?c, ?w1)"
    by (simp add: demo_contract world0_def)
  have u: "''upgradeToAndCall'' \<in> set (dir_functions demo_net ?c)"
    by (simp add: demo_net_def)
  have a: "ABI demo_net AAVE_PROXY ?w1 = Some (''abi of '' @ AAVE_PROXY, ?w2)"
    by (simp add: demo_ABI world0_def)
  have ne: "''abi of '' @ AAVE_PROXY \<noteq> []" by simp
  have nr: "contract_raises demo_net ''0xBBB'' (''abi of '' @ AAVE_PROXY) = None"
    by (simp add: demo_net_def)
  have "underlying_coin_address demo_net ''0xBBB'' world0 =
      Some (call demo_net ?c2 ''UNDERLYING_ASSET_ADDRESS'' ?w2)"
    by (rule proxy_branch(1)[OF c u a ne nr])
  also have "call demo_net ?c2 ''UNDERLYING_ASSET_ADDRESS'' ?w2 =
     (Inr ''0xDDD'',
       \<lparr>requests = [(ETHERSCAN_URL, with_key demo_net (getabi_params ''0xBBB'')),
                    (ETHERSCAN_URL, with_key demo_net (getabi_params AAVE_PROXY))],
        sleeps = [], calls = [(?c2, ''UNDERLYING_ASSET_ADDRESS'')]\<rparr>)"
    by (simp add: call_def demo_net_def world0_def)
  finally show ?thesis .
qed

lemma blank_proxy_ABI:
  "ABI blank_proxy_net address w =
     Some (if address = AAVE_PROXY then [] else ''abi of '' @ address,
           w\<lparr>requests := requests w @
                [(ETHERSCAN_URL, with_key blank_proxy_net (getabi_params address))]\<rparr>)"
proof -
  have r: "http_result blank_proxy_net n ETHERSCAN_URL (with_key blank_proxy_net (getabi_params address))
      = (if address = AAVE_PROXY then [] else ''abi of '' @ address)" for n
    by (simp add: blank_proxy_net_def demo_abi_def with_key_def getabi_params_def)
  have "\<not> limited blank_proxy_net (with_key blank_proxy_net (getabi_params address))
          (length (requests w))"
    unfolding limited_def r by (simp add: startswith_def rate_limit_marker_def)
  from ABI_unlimited[OF this] r show ?thesis by simp
qed

text \<open>
  C2 fails in the code when the explorer answers the query for the proxy address with an
  empty document. The proxy branch passes that document to \<^verbatim>\<open>contract\<close>, where
  \<^verbatim>\<open>abi or await ABI(address)\<close> takes it for no document and fetches the ABI of the address
  itself again: \<^verbatim>\<open>UNDERLYING_ASSET_ADDRESS\<close> is called on a contract object bound with the
  contract's own ABI, after three requests instead of two.
\<close>

theorem proxy_override_empty_document:
  "map_option fst (ABI blank_proxy_net AAVE_PROXY world0) = Some []
   \<and> dir_functions blank_proxy_net \<lparr>c_address = ''0xBBB'', c_abi = ''abi of 0xBBB''\<rparr> =
       [''upgradeToAndCall'']
   \<and> map_option (\<lambda>(r, w1). (calls w1, map (\<lambda>(url, ps). ps ''address'') (requests w1)))
       (underlying_coin_address blank_proxy_net ''0xBBB'' world0) =
       Some ([(\<lparr>c_address = ''0xBBB'', c_abi = ''abi of 0xBBB''\<rparr>, ''UNDERLYING_ASSET_ADDRESS'')],
             [Some (PyStr ''0xBBB''), Some (PyStr AAVE_PROXY), Some (PyStr ''0xBBB'')])"
proof -
  let ?c = "\<lparr>c_address = ''0xBBB'', c_abi = ''abi of 0xBBB''\<rparr>"
  have p: "''0xBBB'' \<noteq> AAVE_PROXY" by (simp add: AAVE_PROXY_def)
  have d: "dir_functions blank_proxy_net ?c = [''upgradeToAndCall'']"
    by (simp add: blank_proxy_net_def demo_net_def)
  have b: "W3_eth_contract blank_proxy_net ''0xBBB'' ''abi of 0xBBB'' = Inr ?c"
    by (simp add: W3_eth_contract_def blank_proxy_net_def demo_net_def)
  have c: "contract blank_proxy_net ''0xBBB'' None world0 =
      Some (Inr ?c, world0\<lparr>requests := requests world0 @
                [(ETHERSCAN_URL, with_key blank_proxy_net (getabi_params ''0xBBB''))]\<rparr>)"
    using p b by (simp add: contract_def blank_proxy_ABI)
  have "map_option (\<lambda>(r, w1). (calls w1, map (\<lambda>(url, ps). ps ''address'') (requests w1)))
       (underlying_coin_address blank_proxy_net ''0xBBB'' world0) =
       Some ([(?c, ''UNDERLYING_ASSET_ADDRESS'')],
             [Some (PyStr ''0xBBB''), Some (PyStr AAVE_PROXY), Some (PyStr ''0xBBB'')])"
    unfolding resolver_cases[OF c] using p d b
    by (simp add: fns_def blank_proxy_ABI contract_def call_def world0_def
        with_key_def getabi_params_def)
  with d show ?thesis by (simp add: blank_proxy_ABI)
qed

section \<open>Resolving many addresses\<close>

text \<open>
  C7. For a single string \<open>a\<close>, \<^verbatim>\<open>underlying_coin_addresses\<close> does what
  \<^verbatim>\<open>_underlying_coin_address(a)\<close> does and returns its value as it is, a bare address and
  not a list; the same exception, the same run that never ends, and the same requests, waits
  and calls otherwise. The order in which tasks would complete plays no part: no task is made.
\<close>

theorem scalar_pass_through:
  "underlying_coin_addresses nt order (Str a) w =
     map_option (map_prod (map_sum id Addr) id) (underlying_coin_address nt a w)"
  by (simp add: underlying_coin_addresses_def split: option.split sum.split prod.split)

lemma those_map_Some: "those (map Some xs) = Some xs"
  by (induction xs) simp_all

text \<open>
  When every task ends with a value whatever has run before it, the loop fills the slots
  of the positions in \<open>order\<close> and leaves the others as they were.
\<close>

lemma gather_loop_values:
  assumes "\<forall>i<length tasks. \<forall>w. \<exists>w1. (tasks ! i) w = Some (Inr (vals i), w1)"
    and "length slots = length tasks"
    and "\<forall>i<length tasks. slots ! i = None \<or> slots ! i = Some (vals i)"
  shows "\<exists>slots1 w1. gather_loop tasks order slots w = Some (Inr slots1, w1)
           \<and> length slots1 = length tasks
           \<and> (\<forall>i<length tasks. slots1 ! i = (if i \<in> set order then Some (vals i) else slots ! i))"
  using assms(2,3)
proof (induction order arbitrary: slots w)
  case Nil
  then show ?case by simp
next
  case (Cons j order)
  show ?case
  proof (cases "j < length tasks \<and> slots ! j = None")
    case True
    with assms(1) obtain w1 where t: "(tasks ! j) w = Some (Inr (vals j), w1)" by blast
    let ?slots = "slots[j := Some (vals j)]"
    have len: "length ?slots = length tasks" using Cons.prems(1) by simp
    have inv: "\<forall>i<length tasks. ?slots ! i = None \<or> ?slots ! i = Some (vals i)"
    proof (intro allI impI)
      fix i assume i: "i < length tasks"
      show "?slots ! i = None \<or> ?slots ! i = Some (vals i)"
      proof (cases "i = j")
        case True
        with i Cons.prems(1) show ?thesis by simp
      next
        case False
        with i Cons.prems(2) show ?thesis by simp
      qed
    qed
    from Cons.IH[OF len inv, of w1] obtain slots1 w2
      where r: "gather_loop tasks order ?slots w1 = Some (Inr slots1, w2)"
        and l1: "length slots1 = length tasks"
        and n1: "\<forall>i<length tasks. slots1 ! i = (if i \<in> set order then Some (vals i) else ?slots ! i)"
      by blast
    have "gather_loop tasks (j # order) slots w = Some (Inr slots1, w2)"
      using True t r by simp
    moreover have "\<forall>i<length tasks. slots1 ! i =
        (if i \<in> set (j # order) then Some (vals i) else slots ! i)"
      using n1 Cons.prems(1) by (auto simp: nth_list_update)
    ultimately show ?thesis using l1 by blast
  next
    case False
    from Cons.IH[OF Cons.prems, of w] obtain slots1 w2
      where r: "gather_loop tasks order slots w = Some (Inr slots1, w2)"
        and l1: "length slots1 = length tasks"
        and n1: "\<forall>i<length tasks. slots1 ! i = (if i \<in> set order then Some (vals i) else slots ! i)"
      by blast
    have "gather_loop tasks (j # order) slots w = Some (Inr slots1, w2)"
      using False r by auto
    moreover have "\<forall>i<length tasks. slots1 ! i =
        (if i \<in> set (j # order) then Some (vals i) else slots ! i)"
      using n1 False Cons.prems(2) by auto
    ultimately show ?thesis using l1 by blast
  qed
qed

lemma gather_values:
  assumes "\<forall>i<length tasks. \<forall>w. \<exists>w1. (tasks ! i) w = Some (Inr (vals i), w1)"
    and "{..<length tasks} \<subseteq> set order"
  shows "\<exists>w1. gather order tasks w = Some (Inr (map vals [0..<length tasks]), w1)"
proof -
  let ?n = "length tasks"
  from gather_loop_values[OF assms(1), of "replicate ?n None" order w]
  obtain slots1 w1
    where r: "gather_loop tasks order (replicate ?n None) w = Some (Inr slots1, w1)"
      and l1: "length slots1 = ?n"
      and n1: "\<forall>i<?n. slots1 ! i = (if i \<in> set order then Some (vals i) else replicate ?n None ! i)"
    by auto
  have "slots1 = map Some (map vals [0..<?n])"
  proof (rule nth_equalityI)
    show "length slots1 = length (map Some (map vals [0..<?n]))" using l1 by simp
  next
    fix i assume "i < length slots1"
    with l1 have i: "i < ?n" by simp
    with assms(2) have "i \<in> set order" by auto
    with n1 i show "slots1 ! i = map Some (map vals [0..<?n]) ! i" by simp
  qed
  then have "those slots1 = Some (map vals [0..<?n])" by (simp only: those_map_Some)
  with r show ?thesis by (simp add: gather_def)
qed

text \<open>
  When every task ends, with a value or an exception, whatever has run before it, the loop
  ends with the exception of the first position in \<open>order\<close> whose task raises.
\<close>

lemma gather_loop_raises:
  assumes "\<forall>i<length tasks. \<forall>w. \<exists>w1. (tasks ! i) w = Some (out i, w1)"
    and "length slots = length tasks"
    and "\<forall>i<length tasks. slots ! i = None \<or> (\<exists>v. out i = Inr v \<and> slots ! i = Some v)"
    and "find (\<lambda>j. j < length tasks \<and> isl (out j)) order = Some i"
  shows "\<exists>w1. gather_loop tasks order slots w = Some (Inl (projl (out i)), w1)"
  using assms(2,3,4)
proof (induction order arbitrary: slots w)
  case Nil
  then show ?case by simp
next
  case (Cons j order)
  show ?case
  proof (cases "j < length tasks \<and> isl (out j)")
    case True
    with Cons.prems(3) have ji: "j = i" by simp
    from True Cons.prems(2) have none: "slots ! j = None" by (auto simp: isl_def)
    from True assms(1) obtain w1 where "(tasks ! j) w = Some (out j, w1)" by blast
    moreover from True obtain e where "out j = Inl e" by (auto simp: isl_def)
    ultimately show ?thesis using True none ji by auto
  next
    case notfail: False
    with Cons.prems(3) have f: "find (\<lambda>j. j < length tasks \<and> isl (out j)) order = Some i"
      by simp
    show ?thesis
    proof (cases "j < length tasks \<and> slots ! j = None")
      case True
      with notfail obtain v where v: "out j = Inr v" by (cases "out j") auto
      from True assms(1) obtain w1 where t: "(tasks ! j) w = Some (out j, w1)" by blast
      let ?slots = "slots[j := Some v]"
      have len: "length ?slots = length tasks" using Cons.prems(1) by simp
      have inv: "\<forall>i<length tasks. ?slots ! i = None \<or> (\<exists>v. out i = Inr v \<and> ?slots ! i = Some v)"
      proof (intro allI impI)
        fix i assume i: "i < length tasks"
        show "?slots ! i = None \<or> (\<exists>v. out i = Inr v \<and> ?slots ! i = Some v)"
        proof (cases "i = j")
          case True
          with i Cons.prems(1) v show ?thesis by simp
        next
          case False
          with i Cons.prems(2) show ?thesis by simp
        qed
      qed
      from Cons.IH[OF len inv f, of w1] True t v show ?thesis by auto
    next
      case False
      from Cons.IH[OF Cons.prems(1,2) f, of w] False show ?thesis by auto
    qed
  qed
qed

lemma demo_resolve_AAA:
  "\<exists>w1. underlying_coin_address demo_net ''0xAAA'' w = Some (Inr ''0xCCC'', w1)"
  unfolding resolver_cases[OF demo_contract]
  by (simp add: fns_def demo_net_def call_def)

lemma demo_resolve_BBB:
  "\<exists>w1. underlying_coin_address demo_net ''0xBBB'' w = Some (Inr ''0xDDD'', w1)"
  unfolding resolver_cases[OF demo_contract]
  by (simp add: fns_def demo_ABI contract_def demo_bind) (simp add: demo_net_def call_def)

lemma demo_resolve_EEE:
  "\<exists>w1. underlying_coin_address demo_net ''0xEEE'' w =
     Some (Inl (ValueError ''Could not find underlying token for 0xEEE''), w1)"
  unfolding resolver_cases[OF demo_contract]
  by (simp add: fns_def demo_dir_EEE)

text \<open>
  C3. Take addresses that each resolve to a value, \<open>r a\<close> for \<open>a\<close>, whatever has run before,
  and any order of completion in which every task completes. Then
  \<^verbatim>\<open>underlying_coin_addresses\<close> returns a list as long as the input whose element at
  position \<open>i\<close> is what resolving the address at position \<open>i\<close> alone returns: the list of
  the \<open>r a\<close> in the order of the input, the same for every order of completion.
\<close>

theorem batch_order:
  assumes "\<forall>a\<in>set as. \<forall>w. \<exists>w1. underlying_coin_address nt a w = Some (Inr (r a), w1)"
    and "{..<length as} \<subseteq> set order"
  shows "\<exists>vs w1. underlying_coin_addresses nt order (Iterable as) w = Some (Inr (AddrList vs), w1)
           \<and> vs = map r as
           \<and> length vs = length as
           \<and> (\<forall>i<length as. \<exists>w2. underlying_coin_address nt (as ! i) w = Some (Inr (vs ! i), w2))"
proof -
  let ?tasks = "map (underlying_coin_address nt) as"
  have t: "\<forall>i<length ?tasks. \<forall>w. \<exists>w1. (?tasks ! i) w = Some (Inr (r (as ! i)), w1)"
    using assms(1) by simp
  have c: "{..<length ?tasks} \<subseteq> set order" using assms(2) by simp
  from gather_values[OF t c, of w] obtain w1
    where g: "gather order ?tasks w = Some (Inr (map (\<lambda>i. r (as ! i)) [0..<length ?tasks]), w1)"
    by blast
  have m: "map (\<lambda>i. r (as ! i)) [0..<length ?tasks] = map r as"
    by (rule nth_equalityI) simp_all
  from g m have "underlying_coin_addresses nt order (Iterable as) w =
      Some (Inr (AddrList (map r as)), w1)"
    by (simp add: underlying_coin_addresses_def)
  moreover have "\<forall>i<length as. \<exists>w2. underlying_coin_address nt (as ! i) w =
      Some (Inr (map r as ! i), w2)"
    using assms(1) by simp
  ultimately show ?thesis by simp
qed

theorem batch_order_witness:
  "\<exists>w1. underlying_coin_addresses demo_net [1, 0] (Iterable [''0xAAA'', ''0xBBB'']) world0 =
     Some (Inr (AddrList [''0xCCC'', ''0xDDD'']), w1)"
proof -
  let ?r = "\<lambda>a. if a = ''0xAAA'' then ''0xCCC'' else ''0xDDD''"
  have a: "\<forall>a\<in>set [''0xAAA'', ''0xBBB'']. \<forall>w. \<exists>w1.
      underlying_coin_address demo_net a w = Some (Inr (?r a), w1)"
    using demo_resolve_AAA demo_resolve_BBB by simp
  have b: "{..<length [''0xAAA'', ''0xBBB'']} \<subseteq> set [1, 0::nat]" by auto
  from batch_order[OF a b, of world0] show ?thesis by simp
qed

text \<open>
  C5, as the code has it. Take addresses whose resolutions each end, with a value or an
  exception, whatever has run before, at least one of them with an exception, and any
  order of completion in which every task completes. Then \<^verbatim>\<open>underlying_coin_addresses\<close>
  returns no list: it ends with the exception of the first task in the order of completion
  that raises, and that exception is the one resolving that address alone raises, as it
  is, in no wrapper.
\<close>

theorem batch_failure:
  assumes "\<forall>a\<in>set as. \<forall>w. \<exists>w1. underlying_coin_address nt a w = Some (out a, w1)"
    and "{..<length as} \<subseteq> set order"
    and "\<exists>a\<in>set as. isl (out a)"
  shows "\<exists>i e w1 w2. find (\<lambda>j. j < length as \<and> isl (out (as ! j))) order = Some i
           \<and> i < length as
           \<and> underlying_coin_address nt (as ! i) w = Some (Inl e, w2)
           \<and> underlying_coin_addresses nt order (Iterable as) w = Some (Inl e, w1)"
proof -
  let ?tasks = "map (underlying_coin_address nt) as"
  let ?out = "\<lambda>i. out (as ! i)"
  have t: "\<forall>i<length ?tasks. \<forall>w. \<exists>w1. (?tasks ! i) w = Some (?out i, w1)"
    using assms(1) by simp
  from assms(3) obtain j0 where "j0 < length as" "isl (out (as ! j0))"
    by (auto simp: in_set_conv_nth)
  with assms(2) have "\<exists>j\<in>set order. j < length as \<and> isl (out (as ! j))" by auto
  then obtain i where f: "find (\<lambda>j. j < length as \<and> isl (out (as ! j))) order = Some i"
    by (cases "find (\<lambda>j. j < length as \<and> isl (out (as ! j))) order") (auto simp: find_None_iff)
  then have i: "i < length as" and fl: "isl (out (as ! i))"
    by (auto simp: find_Some_iff)
  from fl obtain e where e: "out (as ! i) = Inl e" by (auto simp: isl_def)
  from f have f': "find (\<lambda>j. j < length ?tasks \<and> isl (?out j)) order = Some i" by simp
  have inv: "\<forall>i<length ?tasks. replicate (length ?tasks) None ! i = None
      \<or> (\<exists>v. ?out i = Inr v \<and> replicate (length ?tasks) None ! i = Some v)"
    by simp
  from gather_loop_raises[OF t _ inv f', of w] e obtain w1
    where "gather_loop ?tasks order (replicate (length ?tasks) None) w = Some (Inl e, w1)"
    by auto
  then have b: "underlying_coin_addresses nt order (Iterable as) w = Some (Inl e, w1)"
    by (simp add: underlying_coin_addresses_def gather_def)
  from assms(1) i e obtain w2 where "underlying_coin_address nt (as ! i) w = Some (Inl e, w2)"
    by (metis nth_mem)
  with f i b show ?thesis by blast
qed

theorem batch_failure_witness:
  "\<exists>w1. underlying_coin_addresses demo_net [0, 1] (Iterable [''0xAAA'', ''0xEEE'']) world0 =
     Some (Inl (ValueError ''Could not find underlying token for 0xEEE''), w1)"
proof -
  let ?e = "ValueError ''Could not find underlying token for 0xEEE''"
  let ?out = "\<lambda>a. if a = ''0xAAA'' then Inr ''0xCCC'' else Inl ?e"
  have a: "\<forall>a\<in>set [''0xAAA'', ''0xEEE'']. \<forall>w. \<exists>w1.
      underlying_coin_address demo_net a w = Some (?out a, w1)"
    using demo_resolve_AAA demo_resolve_EEE by simp
  have b: "{..<length [''0xAAA'', ''0xEEE'']} \<subseteq> set [0, 1::nat]" by auto
  have c: "\<exists>a\<in>set [''0xAAA'', ''0xEEE'']. isl (?out a)" by simp
  from batch_failure[OF a b c, of world0] obtain i e w1 w2
    where f: "find (\<lambda>j. j < length [''0xAAA'', ''0xEEE'']
                \<and> isl (?out ([''0xAAA'', ''0xEEE''] ! j))) [0, 1::nat] = Some i"
      and r: "underlying_coin_address demo_net ([''0xAAA'', ''0xEEE''] ! i) world0 = Some (Inl e, w2)"
      and g: "underlying_coin_addresses demo_net [0, 1] (Iterable [''0xAAA'', ''0xEEE'']) world0 =
        Some (Inl e, w1)"
    by blast
  from f have "i = 1" by simp
  with r demo_resolve_EEE[of world0] have "e = ?e" by auto
  with g show ?thesis by blast
qed

text \<open>
  C5, as the specification has it, fails: the batch ends with the \<^verbatim>\<open>ValueError\<close> of the
  failing address itself, which is no \<open>BatchError\<close>.
\<close>

theorem batch_failure_counterexample:
  "map_option fst
     (underlying_coin_addresses demo_net [0, 1] (Iterable [''0xAAA'', ''0xEEE'']) world0) =
     Some (Inl (ValueError ''Could not find underlying token for 0xEEE''))
   \<and> map_option fst (underlying_coin_address demo_net ''0xEEE'' world0) =
     Some (Inl (ValueError ''Could not find underlying token for 0xEEE''))
   \<and> \<not> is_BatchError (ValueError ''Could not find underlying token for 0xEEE'')"
proof -
  let ?e = "ValueError ''Could not find underlying token for 0xEEE''"
  obtain w1 where a: "underlying_coin_address demo_net ''0xAAA'' world0 = Some (Inr ''0xCCC'', w1)"
    using demo_resolve_AAA by blast
  obtain w2 where e: "underlying_coin_address demo_net ''0xEEE'' w1 = Some (Inl ?e, w2)"
    using demo_resolve_EEE by blast
  obtain w3 where e0: "underlying_coin_address demo_net ''0xEEE'' world0 = Some (Inl ?e, w3)"
    using demo_resolve_EEE by blast
  have "underlying_coin_addresses demo_net [0, 1] (Iterable [''0xAAA'', ''0xEEE'']) world0 =
      Some (Inl ?e, w2)"
    using a e by (simp add: underlying_coin_addresses_def gather_def)
  with e0 show ?thesis by simp
qed

end
